theory Spec2Isabelle
  imports Complex_Main
begin

section \<open>The tile downloader of robosat/tools/download.py\<close>

text \<open>
  The module holds two functions: \<open>main\<close>, which prepares the output directory, the log and
  the thread pool, and the closure \<open>worker\<close>, which downloads one tile. Both act on the file
  system, the network, the clock, the progress bar and the log; here all of these are fields
  of one record \<open>world\<close> that each function takes and returns.

  What the module calls but does not define is a parameter of the model, collected in the
  record \<open>env\<close>: \<open>fetch_image\<close> and \<open>tile_to_bbox\<close> of robosat.tiles, the imaging library
  (\<open>Image.open\<close>, \<open>image.save\<close>), the rendering of floating point numbers, and how long
  the calls into the file system, the network and the imaging library take.
  \<open>fetch_image\<close> gives the payload, or None for every result that \<open>not res\<close> accepts.
  The log and the preview page are outside the module too: the log is the list of the
  lines written to it, and a call of \<open>leaflet\<close> is recorded with its arguments.

  Exceptions are values. Of the library calls, \<open>os.makedirs\<close> may raise \<open>OSError\<close>,
  \<open>str.format\<close> raises \<open>KeyError\<close> on a field that has no argument,
  \<open>ThreadPoolExecutor\<close> raises \<open>ValueError\<close> for a pool of no workers, a division by
  zero raises \<open>ZeroDivisionError\<close>, and the imaging library raises \<open>OSError\<close>, the one
  exception \<open>worker\<close> handles. Other exceptions of the libraries are outside the model.
  Time is a real number: the rounding of floating point arithmetic is not modelled.
\<close>

subsection \<open>Data\<close>

text \<open>
  A tile object has the attributes x, y and z, which can be assigned to (line 66 does);
  the zoom level is not negative.
\<close>

record tile =
  tile_x :: int
  tile_y :: int
  tile_z :: nat

datatype exn = OSError | KeyError string | ValueError | ZeroDivisionError

text \<open>
  \<open>args.url\<close> is held in the form \<open>str.format\<close> works on: literal text and replacement
  fields \<open>{name}\<close> (plain names, no conversion and no format specification).
\<close>

datatype part = Lit string | Field string

type_synonym template = "part list"

datatype fval = IntV int | FloatV real

text \<open>
  The command line arguments. \<open>stype\<close> is \<open>args.type\<close>; \<open>out\<close> is the list of the
  components of the output directory below the working directory; \<open>args.tiles\<close> is read
  by \<open>tiles_from_csv\<close>, whose result \<open>main\<close> takes as an argument here.
\<close>

record args =
  url :: template
  ext :: string
  rate :: int
  stype :: string
  timeout :: int
  out :: "string list"
  leaflet :: "string option"

type_synonym path = "string list"

text \<open>A node of the file system: a directory, or a regular file (complete or cut short).\<close>

datatype node = Dir | File bool

type_synonym filesystem = "path \<Rightarrow> node option"

type_synonym payload = string

text \<open>What \<open>image.save\<close> does at a path it can open: it writes the file, or it raises
  \<open>OSError\<close> and leaves either nothing or a file that is cut short.\<close>

datatype save_result = Saved | SaveFails bool

text \<open>
  Modelled from the spec: \<open>fetch_image\<close> and \<open>tile_to_bbox\<close> of robosat.tiles are not
  among the files. \<open>fetch_image(session, url, timeout)\<close> issues the GET and reports a
  response that is not successful, or a transport error, by a result that \<open>not res\<close>
  accepts (here None); it raises nothing. \<open>tile_to_bbox(tile)\<close> gives the four corners
  of the tile, which depend on the tile alone. The other fields are the imaging library
  (whether \<open>Image.open\<close> returns, what \<open>image.save\<close> does), \<open>str\<close> on a floating
  point number, and the time taken by the file system calls before the request, by a
  request, and by the imaging library.
\<close>

record env =
  fetch_image :: "string \<Rightarrow> int \<Rightarrow> payload option"
  tile_to_bbox :: "tile \<Rightarrow> real \<times> real \<times> real \<times> real"
  float_str :: "real \<Rightarrow> string"
  image_open :: "payload \<Rightarrow> bool"
  image_save :: "payload \<Rightarrow> path \<Rightarrow> save_result"
  lat_fs :: real
  lat_fetch :: "string \<Rightarrow> real"
  lat_image :: real

datatype log_entry = Begin template | Warning tile "string option" | Notice nat

record world =
  files :: filesystem
  now :: real
  requests :: "(string \<times> real) list"
  sleeps :: "real list"
  progress :: nat
  log_lines :: "log_entry list"
  previews :: "(path \<times> string \<times> tile list \<times> string) list"

text \<open>An outcome is the triple \<open>(tile, url, ok)\<close> that \<open>worker\<close> returns.\<close>

type_synonym outcome = "tile \<times> string option \<times> bool"

subsection \<open>Library functions\<close>

text \<open>\<open>str\<close> on an integer: decimal digits, with a minus sign for a negative number.\<close>

fun digits :: "nat \<Rightarrow> string" where
  "digits n = (if n < 10 then [''0123456789'' ! n]
               else digits (n div 10) @ [''0123456789'' ! (n mod 10)])"

declare digits.simps [simp del]

definition str_int :: "int \<Rightarrow> string" where
  "str_int i = (if i < 0 then CHR ''-'' # digits (nat (- i)) else digits (nat i))"

definition str_val :: "env \<Rightarrow> fval \<Rightarrow> string" where
  "str_val e v = (case v of IntV i \<Rightarrow> str_int i | FloatV r \<Rightarrow> float_str e r)"

text \<open>\<open>template.format(**kw)\<close>: the fields are looked up from left to right.\<close>

fun format_str :: "env \<Rightarrow> template \<Rightarrow> (string \<times> fval) list \<Rightarrow> exn + string" where
  "format_str e [] kw = Inr []"
| "format_str e (Lit s # ps) kw =
     (case format_str e ps kw of Inl err \<Rightarrow> Inl err | Inr r \<Rightarrow> Inr (s @ r))"
| "format_str e (Field n # ps) kw =
     (case map_of kw n of
        None \<Rightarrow> Inl (KeyError n)
      | Some v \<Rightarrow> (case format_str e ps kw of Inl err \<Rightarrow> Inl err | Inr r \<Rightarrow> Inr (str_val e v @ r)))"

text \<open>
  Path resolution walks the components from the working directory, which is a directory;
  a component below something that is not a directory does not resolve.
\<close>

definition node_at :: "filesystem \<Rightarrow> path \<Rightarrow> node option" where
  "node_at fs p = (if p = [] then Some Dir else fs p)"

fun walk :: "filesystem \<Rightarrow> path \<Rightarrow> path \<Rightarrow> node option" where
  "walk fs cur [] = node_at fs cur"
| "walk fs cur (c # cs) =
     (if node_at fs cur = Some Dir then walk fs (cur @ [c]) cs else None)"

definition isfile :: "filesystem \<Rightarrow> path \<Rightarrow> bool" where
  "isfile fs p = (case walk fs [] p of Some (File _) \<Rightarrow> True | _ \<Rightarrow> False)"

text \<open>\<open>os.makedirs(p, exist_ok=True)\<close>: every missing directory on the way is created; a
  regular file on the way raises \<open>OSError\<close>.\<close>

fun makedirs_from :: "filesystem \<Rightarrow> path \<Rightarrow> path \<Rightarrow> exn + filesystem" where
  "makedirs_from fs cur [] = Inr fs"
| "makedirs_from fs cur (c # cs) =
     (case fs (cur @ [c]) of
        Some (File _) \<Rightarrow> Inl OSError
      | Some Dir \<Rightarrow> makedirs_from fs (cur @ [c]) cs
      | None \<Rightarrow> makedirs_from (fs(cur @ [c] \<mapsto> Dir)) (cur @ [c]) cs)"

definition makedirs :: "filesystem \<Rightarrow> path \<Rightarrow> exn + filesystem" where
  "makedirs fs p = makedirs_from fs [] p"

subsection \<open>The worker\<close>

text \<open>
  Lines 63 to 72: the URL of the tile for the service type. The TMS branch assigns to
  \<open>tile.y\<close>, so the tile object comes back with the result; an unknown service type
  gives no URL.
\<close>

definition resolve_url :: "args \<Rightarrow> env \<Rightarrow> tile \<Rightarrow> exn + tile \<times> string option" where
  "resolve_url a e t =
     (if stype a = ''XYZ'' then
        (case format_str e (url a)
                [(''x'', IntV (tile_x t)), (''y'', IntV (tile_y t)), (''z'', IntV (int (tile_z t)))] of
           Inl err \<Rightarrow> Inl err
         | Inr u \<Rightarrow> Inr (t, Some u))
      else if stype a = ''TMS'' then
        (let t' = t\<lparr>tile_y := 2 ^ tile_z t - tile_y t - 1\<rparr> in
         case format_str e (url a)
                [(''x'', IntV (tile_x t')), (''y'', IntV (tile_y t')), (''z'', IntV (int (tile_z t')))] of
           Inl err \<Rightarrow> Inl err
         | Inr u \<Rightarrow> Inr (t', Some u))
      else if stype a = ''WMS'' then
        (case tile_to_bbox e t of
           (xmin, ymin, xmax, ymax) \<Rightarrow>
             (case format_str e (url a)
                     [(''xmin'', FloatV xmin), (''ymin'', FloatV ymin),
                      (''xmax'', FloatV xmax), (''ymax'', FloatV ymax)] of
                Inl err \<Rightarrow> Inl err
              | Inr u \<Rightarrow> Inr (t, Some u)))
      else Inr (t, None))"

text \<open>
  Lines 78 to 82: \<open>Image.open(res)\<close> and \<open>image.save(path, optimize=True)\<close> inside
  \<open>try\<close>; the result is the file system afterwards and whether no \<open>OSError\<close> was raised.
  Saving to a path that is a directory raises \<open>OSError\<close>.
\<close>

definition open_and_save :: "env \<Rightarrow> filesystem \<Rightarrow> path \<Rightarrow> payload \<Rightarrow> filesystem \<times> bool" where
  "open_and_save e fs p res =
     (if \<not> image_open e res then (fs, False)
      else if walk fs [] p = Some Dir then (fs, False)
      else (case image_save e res p of
              Saved \<Rightarrow> (fs(p \<mapsto> File True), True)
            | SaveFails partial \<Rightarrow> ((if partial then fs(p \<mapsto> File False) else fs), False)))"

text \<open>The path \<open>out/z/x/y.ext\<close> of a tile, from the coordinates as they are on entry.\<close>

definition tile_dir :: "args \<Rightarrow> tile \<Rightarrow> path" where
  "tile_dir a t = out a @ [str_int (int (tile_z t)), str_int (tile_x t)]"

definition tile_path :: "args \<Rightarrow> tile \<Rightarrow> path" where
  "tile_path a t = tile_dir a t @ [str_int (tile_y t) @ ''.'' @ ext a]"

text \<open>
  Lines 84 to 94, after the image is saved: the pacing sleep, the progress bar and the
  outcome. \<open>tick\<close> is the time read on line 53.
\<close>

definition pace_and_report ::
  "args \<Rightarrow> int \<Rightarrow> real \<Rightarrow> world \<Rightarrow> tile \<Rightarrow> string \<Rightarrow> world \<times> (exn + outcome)" where
  "pace_and_report a num_workers tick w t u =
     (let tock = now w;
          time_for_req = tock - tick
      in if rate a = 0 then (w, Inl ZeroDivisionError)
         else
           let time_per_worker = real_of_int num_workers / real_of_int (rate a);
               w1 = (if time_for_req < time_per_worker
                     then w\<lparr>now := now w + (time_per_worker - time_for_req),
                            sleeps := sleeps w @ [time_per_worker - time_for_req]\<rparr>
                     else w);
               w2 = w1\<lparr>progress := progress w1 + 1\<rparr>
           in (w2, Inr (t, Some u, True)))"

text \<open>
  Lines 74 to 82, once the URL is known: the request, the check of the response, and the
  image. Every request is recorded with the time at which it is issued.
\<close>

definition fetch_and_store ::
  "args \<Rightarrow> env \<Rightarrow> int \<Rightarrow> real \<Rightarrow> path \<Rightarrow> world \<Rightarrow> tile \<Rightarrow> string \<Rightarrow> world \<times> (exn + outcome)" where
  "fetch_and_store a e num_workers tick p w t u =
     (let w1 = w\<lparr>requests := requests w @ [(u, now w)], now := now w + lat_fetch e u\<rparr>
      in case fetch_image e u (timeout a) of
           None \<Rightarrow> (w1, Inr (t, Some u, False))
         | Some res \<Rightarrow>
             (case open_and_save e (files w1) p res of
                (fs', saved) \<Rightarrow>
                  (let w2 = w1\<lparr>files := fs', now := now w1 + lat_image e\<rparr>
                   in if \<not> saved then (w2, Inr (t, Some u, False))
                      else pace_and_report a num_workers tick w2 t u)))"

text \<open>
  The closure \<open>worker\<close> of \<open>main\<close> (lines 52 to 94); \<open>num_workers\<close> is the variable of
  \<open>main\<close> it refers to. The result is the world afterwards and either the exception that
  leaves the function or the outcome.
\<close>

definition worker :: "args \<Rightarrow> env \<Rightarrow> int \<Rightarrow> world \<Rightarrow> tile \<Rightarrow> world \<times> (exn + outcome)" where
  "worker a e num_workers w t =
     (let tick = now w;
          p = tile_path a t
      in case makedirs (files w) (tile_dir a t) of
           Inl err \<Rightarrow> (w, Inl err)
         | Inr fs1 \<Rightarrow>
             (let w1 = w\<lparr>files := fs1, now := now w + lat_fs e\<rparr>
              in if isfile (files w1) p then (w1, Inr (t, None, True))
                 else (case resolve_url a e t of
                         Inl err \<Rightarrow> (w1, Inl err)
                       | Inr (t', None) \<Rightarrow> (w1, Inr (t', None, False))
                       | Inr (t', Some u) \<Rightarrow> fetch_and_store a e num_workers tick p w1 t' u)))"

subsection \<open>The thread pool\<close>

text \<open>
  \<open>executor.map(worker, tiles)\<close> submits one task for each tile and keeps the futures in
  the order of the tiles. The pool runs every task; which one finishes when is not fixed,
  so the order in which the tasks run is a parameter, the schedule: a list of positions in
  \<open>tiles\<close>. A task is one call of \<open>worker\<close>, taken as one step. It stores its result in the
  future of its position and may have changed its tile object.
\<close>

record pool =
  pool_world :: world
  objs :: "tile list"
  futures :: "(exn + outcome) option list"

definition run_task :: "args \<Rightarrow> env \<Rightarrow> int \<Rightarrow> nat \<Rightarrow> pool \<Rightarrow> pool" where
  "run_task a e num_workers i p =
     (if i < length (objs p) then
        (case worker a e num_workers (pool_world p) (objs p ! i) of
           (w', r) \<Rightarrow>
             p\<lparr>pool_world := w',
               objs := (case r of Inl _ \<Rightarrow> objs p | Inr (t', _, _) \<Rightarrow> (objs p)[i := t']),
               futures := (futures p)[i := Some r]\<rparr>)
      else p)"

fun run_tasks :: "args \<Rightarrow> env \<Rightarrow> int \<Rightarrow> nat list \<Rightarrow> pool \<Rightarrow> pool" where
  "run_tasks a e num_workers [] p = p"
| "run_tasks a e num_workers (i # sched) p =
     run_tasks a e num_workers sched (run_task a e num_workers i p)"

subsection \<open>The orchestrator\<close>

text \<open>Truth value of \<open>url\<close> in \<open>not url\<close>, and of \<open>args.leaflet\<close>: neither None nor empty.\<close>

definition truthy :: "string option \<Rightarrow> bool" where
  "truthy s = (case s of None \<Rightarrow> False | Some v \<Rightarrow> v \<noteq> [])"

text \<open>
  The body of the loop on lines 96 to 100, on the world, the counter \<open>already_dl\<close> and the
  outcomes received so far (which the code does not keep; they are here to be spoken of).
\<close>

definition report :: "world \<times> nat \<times> outcome list \<Rightarrow> outcome \<Rightarrow> world \<times> nat \<times> outcome list" where
  "report st oc =
     (case st of (w, already_dl, seen) \<Rightarrow>
      case oc of (t, u, ok) \<Rightarrow>
        (let already_dl' = (if \<not> truthy u \<and> ok then already_dl + 1 else already_dl);
             w' = (if \<not> ok then w\<lparr>log_lines := log_lines w @ [Warning t u]\<rparr> else w)
         in (w', already_dl', seen @ [oc])))"

text \<open>
  The loop takes the results of the futures in their order: it waits for a future that has
  no result (for ever, if its task never runs: the value None), and the exception of a
  task is raised where its result is taken.
\<close>

fun consume :: "(exn + outcome) option list \<Rightarrow> world \<times> nat \<times> outcome list
    \<Rightarrow> (exn + world \<times> nat \<times> outcome list) option" where
  "consume [] st = Some (Inr st)"
| "consume (None # fs) st = None"
| "consume (Some (Inl err) # fs) st = Some (Inl err)"
| "consume (Some (Inr oc) # fs) st = consume fs (report st oc)"

record final =
  final_world :: world
  already :: nat
  final_tiles :: "tile list"
  consumed :: "outcome list"

text \<open>Lines 42 to 48: the output directory, the log with its first line, the progress bar.\<close>

definition startup :: "args \<Rightarrow> world \<Rightarrow> exn + world" where
  "startup a w =
     (case makedirs (files w) (out a) of
        Inl err \<Rightarrow> Inl err
      | Inr fs0 \<Rightarrow>
          Inr (w\<lparr>files := fs0, log_lines := log_lines w @ [Begin (url a)], progress := 0\<rparr>))"

text \<open>The pool when every tile is submitted and no task has run.\<close>

definition new_pool :: "world \<Rightarrow> tile list \<Rightarrow> pool" where
  "new_pool w tiles = \<lparr>pool_world = w, objs = tiles, futures = replicate (length tiles) None\<rparr>"

text \<open>
  \<open>main\<close> (lines 35 to 106), given the tiles read from the file and the schedule of the
  pool. The result None stands for a run that does not return; after an exception the
  world is not described.
\<close>

definition main :: "args \<Rightarrow> env \<Rightarrow> nat list \<Rightarrow> tile list \<Rightarrow> world \<Rightarrow> (exn + final) option" where
  "main a e sched tiles w =
     (let num_workers = rate a
      in case startup a w of
           Inl err \<Rightarrow> Some (Inl err)
         | Inr w0 \<Rightarrow>
             if num_workers \<le> 0 then Some (Inl ValueError)
             else
               (let p = run_tasks a e num_workers sched (new_pool w0 tiles)
                in case consume (futures p) (pool_world p, 0, []) of
                     None \<Rightarrow> None
                   | Some (Inl err) \<Rightarrow> Some (Inl err)
                   | Some (Inr (w1, already_dl, seen)) \<Rightarrow>
                       (let w2 = (if already_dl \<noteq> 0
                                  then w1\<lparr>log_lines := log_lines w1 @ [Notice already_dl]\<rparr>
                                  else w1);
                            w3 = (if truthy (leaflet a)
                                  then w2\<lparr>previews := previews w2 @
                                         [(out a, the (leaflet a), objs p, ext a)]\<rparr>
                                  else w2)
                        in Some (Inr \<lparr>final_world = w3, already = already_dl,
                                     final_tiles = objs p, consumed = seen\<rparr>))))"

text \<open>
  The result of the task at position \<open>i\<close> under a schedule: what \<open>worker\<close> returns for the
  tile at \<open>i\<close> in the world that the tasks scheduled before it have left.
\<close>

definition task_result :: "args \<Rightarrow> env \<Rightarrow> int \<Rightarrow> nat list \<Rightarrow> pool \<Rightarrow> nat \<Rightarrow> exn + outcome" where
  "task_result a e num_workers sched p i =
     snd (worker a e num_workers
            (pool_world (run_tasks a e num_workers (takeWhile (\<lambda>j. j \<noteq> i) sched) p))
            (objs p ! i))"

subsection \<open>Words for the statements\<close>

text \<open>The warning lines that a sequence of outcomes adds to the log, and the test of the
  loop for a tile that was downloaded before.\<close>

definition warnings :: "outcome list \<Rightarrow> log_entry list" where
  "warnings ocs = map (\<lambda>(t, u, ok). Warning t u) (filter (\<lambda>(t, u, ok). \<not> ok) ocs)"

definition is_present :: "outcome \<Rightarrow> bool" where
  "is_present oc = (case oc of (t, u, ok) \<Rightarrow> \<not> truthy u \<and> ok)"

text \<open>An outcome with a URL and \<open>ok\<close>: the tile was fetched and saved.\<close>

definition is_fetched :: "exn + outcome \<Rightarrow> bool" where
  "is_fetched r = (case r of Inr (t, Some u, True) \<Rightarrow> True | _ \<Rightarrow> False)"

text \<open>A future that holds the outcome of a fetched tile.\<close>

definition done_fetched :: "(exn + outcome) option \<Rightarrow> bool" where
  "done_fetched f = (case f of None \<Rightarrow> False | Some r \<Rightarrow> is_fetched r)"

subsection \<open>Concrete runs\<close>

text \<open>
  One tile at zoom 1, a template of the form \<open>http://s/{z}/{x}/{y}\<close>, the output
  directory \<open>out\<close>, one worker; a server that answers every request in the same way and
  an imaging library that treats every payload in the same way; three file systems: an
  empty one, one that holds the tile already, and one where \<open>out/1\<close> is a regular file.
\<close>

definition ex_url :: template where
  "ex_url = [Lit ''http://s/'', Field ''z'', Lit ''/'', Field ''x'', Lit ''/'', Field ''y'']"

definition ex_args :: "string \<Rightarrow> args" where
  "ex_args ty = \<lparr>url = ex_url, ext = ''webp'', rate = 1, stype = ty, timeout = 10,
                 out = [''out''], leaflet = None\<rparr>"

definition ex_tile :: tile where
  "ex_tile = \<lparr>tile_x = 0, tile_y = 0, tile_z = 1\<rparr>"

definition ex_env :: "payload option \<Rightarrow> bool \<Rightarrow> save_result \<Rightarrow> env" where
  "ex_env resp opens saves =
     \<lparr>fetch_image = (\<lambda>u t. resp), tile_to_bbox = (\<lambda>t. (0, 0, 0, 0)),
      float_str = (\<lambda>r. ''0.0''), image_open = (\<lambda>p. opens), image_save = (\<lambda>p q. saves),
      lat_fs = 1 / 2, lat_fetch = (\<lambda>u. 1 / 4), lat_image = 0\<rparr>"

definition ex_world :: "filesystem \<Rightarrow> world" where
  "ex_world fs = \<lparr>files = fs, now = 0, requests = [], sleeps = [], progress = 0,
                  log_lines = [], previews = []\<rparr>"

definition fs_done :: filesystem where
  "fs_done = [[''out''] \<mapsto> Dir, [''out'', ''1''] \<mapsto> Dir, [''out'', ''1'', ''0''] \<mapsto> Dir,
              [''out'', ''1'', ''0'', ''0.webp''] \<mapsto> File True]"

definition fs_dirs :: filesystem where
  "fs_dirs = [[''out''] \<mapsto> Dir, [''out'', ''1''] \<mapsto> Dir, [''out'', ''1'', ''0''] \<mapsto> Dir]"

definition fs_blocked :: filesystem where
  "fs_blocked = [[''out''] \<mapsto> Dir, [''out'', ''1''] \<mapsto> File True]"

text \<open>A second tile, and the world of the empty file system after the start of \<open>main\<close>.\<close>

definition ex_tile2 :: tile where
  "ex_tile2 = \<lparr>tile_x = 1, tile_y = 0, tile_z = 1\<rparr>"

definition ex_started :: world where
  "ex_started = \<lparr>files = [[''out''] \<mapsto> Dir], now = 0, requests = [], sleeps = [], progress = 0,
                  log_lines = [Begin ex_url], previews = []\<rparr>"

section \<open>Properties of the model\<close>

subsection \<open>The file system\<close>

text \<open>Below a path that resolves, every directory on the way exists already.\<close>

lemma makedirs_from_present:
  "walk fs cur (cs @ f # rest) = Some (File b) \<Longrightarrow> makedirs_from fs cur cs = Inr fs"
proof (induction cs arbitrary: cur)
  case Nil
  then show ?case by simp
next
  case (Cons c cs)
  from Cons.prems have w: "walk fs (cur @ [c]) (cs @ f # rest) = Some (File b)"
    by (simp split: if_splits)
  have "fs (cur @ [c]) = Some Dir"
  proof (cases cs)
    case Nil
    with w show ?thesis by (simp add: node_at_def split: if_splits)
  next
    case (Cons d ds)
    with w show ?thesis by (simp add: node_at_def split: if_splits)
  qed
  with Cons.IH [OF w] show ?case by simp
qed

lemma makedirs_isfile: "isfile fs (d @ f # rest) \<Longrightarrow> makedirs fs d = Inr fs"
  unfolding isfile_def makedirs_def
  by (auto split: option.splits node.splits intro: makedirs_from_present)



subsection \<open>What a task leaves alone\<close>

lemma pace_frame:
  "pace_and_report a n tick w t u = (w', r) \<Longrightarrow>
     log_lines w' = log_lines w \<and> previews w' = previews w \<and> files w' = files w
     \<and> requests w' = requests w"
  by (auto simp: pace_and_report_def Let_def split: if_splits)

lemma fetch_frame:
  "fetch_and_store a e n tick p w t u = (w', r) \<Longrightarrow>
     log_lines w' = log_lines w \<and> previews w' = previews w"
  by (auto simp: fetch_and_store_def Let_def split: if_splits option.splits prod.splits
           dest!: pace_frame)

lemma worker_frame:
  "worker a e n w t = (w', r) \<Longrightarrow> log_lines w' = log_lines w \<and> previews w' = previews w"
  by (auto simp: worker_def Let_def split: if_splits option.splits prod.splits sum.splits
           dest!: fetch_frame)

lemma run_task_frame:
  "log_lines (pool_world (run_task a e n i p)) = log_lines (pool_world p)
   \<and> previews (pool_world (run_task a e n i p)) = previews (pool_world p)
   \<and> length (objs (run_task a e n i p)) = length (objs p)
   \<and> length (futures (run_task a e n i p)) = length (futures p)"
  by (auto simp: run_task_def split: prod.splits sum.splits dest: worker_frame)

lemma run_tasks_frame:
  "log_lines (pool_world (run_tasks a e n sched p)) = log_lines (pool_world p)
   \<and> previews (pool_world (run_tasks a e n sched p)) = previews (pool_world p)
   \<and> length (objs (run_tasks a e n sched p)) = length (objs p)
   \<and> length (futures (run_tasks a e n sched p)) = length (futures p)"
  by (induction sched arbitrary: p) (simp_all add: run_task_frame)

lemma run_task_other:
  "j \<noteq> i \<Longrightarrow> futures (run_task a e n i p) ! j = futures p ! j
     \<and> objs (run_task a e n i p) ! j = objs p ! j"
  by (auto simp: run_task_def split: prod.splits sum.splits)

lemma run_tasks_other:
  "j \<notin> set sched \<Longrightarrow> futures (run_tasks a e n sched p) ! j = futures p ! j
     \<and> objs (run_tasks a e n sched p) ! j = objs p ! j"
  by (induction sched arbitrary: p) (auto simp: run_task_other)

lemma run_task_self:
  "i < length (objs p) \<Longrightarrow> length (futures p) = length (objs p) \<Longrightarrow>
     futures (run_task a e n i p) ! i = Some (snd (worker a e n (pool_world p) (objs p ! i)))"
  by (auto simp: run_task_def split: prod.splits sum.splits)

lemma run_tasks_append:
  "run_tasks a e n (xs @ ys) p = run_tasks a e n ys (run_tasks a e n xs p)"
  by (induction xs arbitrary: p) simp_all

subsection \<open>The loop over the futures\<close>

lemma foldl_report:
  "foldl report (w, k, seen) ocs =
     (w\<lparr>log_lines := log_lines w @ warnings ocs\<rparr>, k + length (filter is_present ocs),
      seen @ ocs)"
  by (induction ocs arbitrary: w k seen)
     (auto simp: report_def warnings_def is_present_def Let_def)

lemma consume_Inr:
  "consume fs st = Some (Inr st') \<Longrightarrow>
     \<exists>ocs. fs = map (\<lambda>oc. Some (Inr oc)) ocs \<and> st' = foldl report st ocs"
proof (induction fs st rule: consume.induct)
  case (1 st)
  then show ?case by simp
next
  case (2 fs st)
  then show ?case by simp
next
  case (3 err fs st)
  then show ?case by simp
next
  case (4 oc fs st)
  then obtain ocs where "fs = map (\<lambda>oc. Some (Inr oc)) ocs"
      and "st' = foldl report (report st oc) ocs"
    by auto
  then have "Some (Inr oc) # fs = map (\<lambda>oc. Some (Inr oc)) (oc # ocs)
      \<and> st' = foldl report st (oc # ocs)"
    by simp
  then show ?case by (intro exI [of _ "oc # ocs"])
qed

lemma consume_map:
  "consume (map (\<lambda>oc. Some (Inr oc)) ocs) st = Some (Inr (foldl report st ocs))"
  by (induction ocs arbitrary: st) simp_all


subsection \<open>A run that returns\<close>

text \<open>When every position is scheduled, every future gets its result and the loop ends.\<close>

lemma run_tasks_done:
  assumes "i \<in> set sched" "i < length (objs p)" "length (futures p) = length (objs p)"
  shows "futures (run_tasks a e n sched p) ! i \<noteq> None"
  using assms
proof (induction sched arbitrary: p)
  case Nil
  then show ?case by simp
next
  case (Cons j sched)
  let ?p1 = "run_task a e n j p"
  have len: "i < length (objs ?p1)" "length (futures ?p1) = length (objs ?p1)"
    using Cons.prems by (simp_all add: run_task_frame)
  show ?case
  proof (cases "i \<in> set sched")
    case True
    from Cons.IH [OF True len] show ?thesis by simp
  next
    case False
    with Cons.prems(1) have "j = i" by simp
    have "futures (run_tasks a e n sched ?p1) ! i = futures ?p1 ! i"
      using False by (simp add: run_tasks_other)
    also have "\<dots> \<noteq> None"
      using Cons.prems(2,3) by (simp add: \<open>j = i\<close> run_task_self)
    finally show ?thesis by simp
  qed
qed

lemma consume_returns: "None \<notin> set fs \<Longrightarrow> consume fs st \<noteq> None"
  by (induction fs st rule: consume.induct) auto

lemma main_returns:
  assumes "set sched = {..<length tiles}"
  shows "main a e sched tiles w \<noteq> None"
proof (cases "startup a w")
  case (Inl err)
  then show ?thesis by (simp add: main_def)
next
  case (Inr w0)
  define p where "p = run_tasks a e (rate a) sched (new_pool w0 tiles)"
  have len: "length (futures p) = length tiles"
    by (simp add: p_def run_tasks_frame new_pool_def)
  have "None \<notin> set (futures p)"
  proof
    assume "None \<in> set (futures p)"
    then obtain i where i: "i < length tiles" "futures p ! i = None"
      by (auto simp: in_set_conv_nth len)
    with assms have "i \<in> set sched" by simp
    then have "futures p ! i \<noteq> None"
      unfolding p_def using i(1) by (intro run_tasks_done) (simp_all add: new_pool_def)
    with i(2) show False by simp
  qed
  then have "consume (futures p) (pool_world p, 0, []) \<noteq> None"
    by (rule consume_returns)
  then show ?thesis
    by (auto simp: main_def Inr Let_def simp flip: p_def split: option.splits sum.splits)
qed

lemma main_Inr_cases:
  assumes "main a e sched tiles w = Some (Inr r)"
  obtains w0 p where
    "startup a w = Inr w0" "0 < rate a"
    "p = run_tasks a e (rate a) sched (new_pool w0 tiles)"
    "futures p = map (\<lambda>oc. Some (Inr oc)) (consumed r)"
    "already r = length (filter is_present (consumed r))"
    "final_tiles r = objs p"
    "final_world r =
       (let w1 = (pool_world p)\<lparr>log_lines := log_lines (pool_world p) @ warnings (consumed r)\<rparr>;
            w2 = (if already r \<noteq> 0 then w1\<lparr>log_lines := log_lines w1 @ [Notice (already r)]\<rparr> else w1)
        in if truthy (leaflet a)
           then w2\<lparr>previews := previews w2 @ [(out a, the (leaflet a), objs p, ext a)]\<rparr>
           else w2)"
proof -
  from assms obtain w0 where st: "startup a w = Inr w0" and rate: "0 < rate a"
    by (auto simp: main_def Let_def split: sum.splits if_splits)
  define p where "p = run_tasks a e (rate a) sched (new_pool w0 tiles)"
  from assms st rate obtain st' where cons: "consume (futures p) (pool_world p, 0, []) = Some (Inr st')"
    by (auto simp: main_def Let_def p_def split: option.splits sum.splits)
  then obtain ocs where fut: "futures p = map (\<lambda>oc. Some (Inr oc)) ocs"
      and st': "st' = foldl report (pool_world p, 0, []) ocs"
    by (auto dest: consume_Inr)
  from assms st rate cons have r:
    "r = (let w1 = (pool_world p)\<lparr>log_lines := log_lines (pool_world p) @ warnings ocs\<rparr>;
              k = length (filter is_present ocs);
              w2 = (if k \<noteq> 0 then w1\<lparr>log_lines := log_lines w1 @ [Notice k]\<rparr> else w1);
              w3 = (if truthy (leaflet a)
                    then w2\<lparr>previews := previews w2 @ [(out a, the (leaflet a), objs p, ext a)]\<rparr>
                    else w2)
          in \<lparr>final_world = w3, already = k, final_tiles = objs p, consumed = ocs\<rparr>)"
    by (simp add: main_def Let_def st' foldl_report flip: p_def)
  show ?thesis
  proof (rule that [OF st rate p_def])
    show "futures p = map (\<lambda>oc. Some (Inr oc)) (consumed r)"
      by (simp add: fut r Let_def)
    show "already r = length (filter is_present (consumed r))"
      by (simp add: r Let_def)
    show "final_tiles r = objs p"
      by (simp add: r Let_def)
    show "final_world r =
       (let w1 = (pool_world p)\<lparr>log_lines := log_lines (pool_world p) @ warnings (consumed r)\<rparr>;
            w2 = (if already r \<noteq> 0 then w1\<lparr>log_lines := log_lines w1 @ [Notice (already r)]\<rparr> else w1)
        in if truthy (leaflet a)
           then w2\<lparr>previews := previews w2 @ [(out a, the (leaflet a), objs p, ext a)]\<rparr>
           else w2)"
      by (simp add: r Let_def)
  qed
qed

lemma startup_log: "startup a w = Inr w0 \<Longrightarrow> log_lines w0 = log_lines w @ [Begin (url a)]"
  by (auto simp: startup_def split: sum.splits)

subsection \<open>The concrete runs\<close>

lemma str_int_0: "str_int 0 = ''0''"
  by (simp add: str_int_def digits.simps)

lemma str_int_1: "str_int 1 = ''1''"
  by (simp add: str_int_def digits.simps)

lemma ex_dir: "tile_dir (ex_args ty) ex_tile = [''out'', ''1'', ''0'']"
  by (simp add: tile_dir_def ex_args_def ex_tile_def str_int_0 str_int_1)

lemma ex_path: "tile_path (ex_args ty) ex_tile = [''out'', ''1'', ''0'', ''0.webp'']"
  by (simp add: tile_path_def tile_dir_def ex_args_def ex_tile_def str_int_0 str_int_1)

lemma ex_isfile: "isfile fs_done [''out'', ''1'', ''0'', ''0.webp'']"
  by (simp add: isfile_def fs_done_def node_at_def)



lemma ex_xyz: "resolve_url (ex_args ''XYZ'') e ex_tile = Inr (ex_tile, Some ''http://s/1/0/0'')"
  by (simp add: resolve_url_def ex_args_def ex_url_def ex_tile_def str_val_def
        str_int_0 str_int_1)

lemma ex_args_sel:
  "rate (ex_args ty) = 1" "timeout (ex_args ty) = 10" "stype (ex_args ty) = ty"
  "out (ex_args ty) = [''out'']" "url (ex_args ty) = ex_url" "ext (ex_args ty) = ''webp''"
  "leaflet (ex_args ty) = None"
  by (simp_all add: ex_args_def)

lemmas ex_simps = worker_def fetch_and_store_def pace_and_report_def open_and_save_def
  ex_world_def ex_env_def ex_dir ex_path ex_xyz ex_args_sel Let_def
  makedirs_def isfile_def node_at_def fs_dirs_def fs_done_def fs_blocked_def

lemmas main_simps = main_def startup_def new_pool_def run_task_def report_def truthy_def

text \<open>The server fails: the tile is requested and not saved.\<close>

lemma ex_worker_failed:
  "worker (ex_args ''XYZ'') (ex_env None True Saved) 1 (ex_world Map.empty) ex_tile =
     (\<lparr>files = fs_dirs, now = 3 / 4, requests = [(''http://s/1/0/0'', 1 / 2)], sleeps = [],
       progress = 0, log_lines = [], previews = []\<rparr>,
      Inr (ex_tile, Some ''http://s/1/0/0'', False))"
  by (simp add: ex_simps)

text \<open>The server answers and the image is saved.\<close>

lemma ex_worker_fetched:
  "worker (ex_args ''XYZ'') (ex_env (Some ''img'') True Saved) 1 (ex_world Map.empty) ex_tile =
     (\<lparr>files = fs_dirs([''out'', ''1'', ''0'', ''0.webp''] \<mapsto> File True), now = 1,
       requests = [(''http://s/1/0/0'', 1 / 2)], sleeps = [1 / 4], progress = 1,
       log_lines = [], previews = []\<rparr>,
      Inr (ex_tile, Some ''http://s/1/0/0'', True))"
  by (simp add: ex_simps)

lemma ex_main_fetched:
  "main (ex_args ''XYZ'') (ex_env (Some ''img'') True Saved) [0] [ex_tile] (ex_world Map.empty) =
     Some (Inr \<lparr>final_world =
                  \<lparr>files = fs_dirs([''out'', ''1'', ''0'', ''0.webp''] \<mapsto> File True), now = 1,
                    requests = [(''http://s/1/0/0'', 1 / 2)], sleeps = [1 / 4], progress = 1,
                    log_lines = [Begin ex_url], previews = []\<rparr>,
                already = 0, final_tiles = [ex_tile],
                consumed = [(ex_tile, Some ''http://s/1/0/0'', True)]\<rparr>)"
  by (simp add: main_simps ex_simps)

lemma ex_main_failed:
  "main (ex_args ''XYZ'') (ex_env None True Saved) [0] [ex_tile] (ex_world Map.empty) =
     Some (Inr \<lparr>final_world =
                  \<lparr>files = fs_dirs, now = 3 / 4, requests = [(''http://s/1/0/0'', 1 / 2)],
                    sleeps = [], progress = 0,
                    log_lines = [Begin ex_url, Warning ex_tile (Some ''http://s/1/0/0'')],
                    previews = []\<rparr>,
                already = 0, final_tiles = [ex_tile],
                consumed = [(ex_tile, Some ''http://s/1/0/0'', False)]\<rparr>)"
  by (simp add: main_simps ex_simps)





text \<open>The tile is on disk.\<close>

lemma ex_main_present:
  "main (ex_args ''XYZ'') (ex_env None True Saved) [0] [ex_tile] (ex_world fs_done) =
     Some (Inr \<lparr>final_world =
                  \<lparr>files = fs_done, now = 1 / 2, requests = [], sleeps = [], progress = 0,
                    log_lines = [Begin ex_url, Notice 1], previews = []\<rparr>,
                already = 1, final_tiles = [ex_tile], consumed = [(ex_tile, None, True)]\<rparr>)"
  by (simp add: main_simps ex_simps)






text \<open>Two tiles, the second one scheduled first.\<close>

lemmas ex_tile_simps = tile_dir_def tile_path_def resolve_url_def ex_url_def str_val_def
  ex_tile_def ex_tile2_def str_int_0 str_int_1

lemma ex_startup: "startup (ex_args ty) (ex_world Map.empty) = Inr ex_started"
  by (simp add: startup_def ex_started_def ex_world_def makedirs_def ex_args_sel)

lemma ex_main_two:
  "\<exists>r. main (ex_args ''XYZ'') (ex_env None True Saved) [1, 0] [ex_tile, ex_tile2] (ex_world Map.empty)
        = Some (Inr r)
      \<and> consumed r = [(ex_tile, Some ''http://s/1/0/0'', False), (ex_tile2, Some ''http://s/1/1/0'', False)]
      \<and> requests (final_world r) = [(''http://s/1/1/0'', 1 / 2), (''http://s/1/0/0'', 5 / 4)]"
  by (simp add: main_simps worker_def fetch_and_store_def ex_world_def ex_env_def ex_args_sel Let_def
        makedirs_def isfile_def node_at_def ex_tile_simps)



section \<open>The claims\<close>

subsection \<open>Tiles that are on disk already\<close>

lemma worker_present:
  assumes "isfile (files w) (tile_path a t)"
  shows "worker a e n w t = (w\<lparr>now := now w + lat_fs e\<rparr>, Inr (t, None, True))"
proof -
  have "makedirs (files w) (tile_dir a t) = Inr (files w)"
    using assms unfolding tile_path_def by (rule makedirs_isfile)
  with assms show ?thesis
    by (simp add: worker_def)
qed

lemma run_task_present:
  assumes "\<forall>t\<in>set (objs p). isfile (files (pool_world p)) (tile_path a t)"
    and "i < length (objs p)"
  shows "run_task a e n i p =
           p\<lparr>pool_world := (pool_world p)\<lparr>now := now (pool_world p) + lat_fs e\<rparr>,
             futures := (futures p)[i := Some (Inr (objs p ! i, None, True))]\<rparr>"
proof -
  from assms have "isfile (files (pool_world p)) (tile_path a (objs p ! i))"
    by simp
  then show ?thesis
    using assms(2) by (simp add: run_task_def worker_present)
qed

lemma run_tasks_present:
  assumes "\<forall>t\<in>set (objs p). isfile (files (pool_world p)) (tile_path a t)"
    and "length (futures p) = length (objs p)"
  shows "objs (run_tasks a e n sched p) = objs p
     \<and> files (pool_world (run_tasks a e n sched p)) = files (pool_world p)
     \<and> requests (pool_world (run_tasks a e n sched p)) = requests (pool_world p)
     \<and> sleeps (pool_world (run_tasks a e n sched p)) = sleeps (pool_world p)
     \<and> progress (pool_world (run_tasks a e n sched p)) = progress (pool_world p)
     \<and> (\<forall>i\<in>set sched. i < length (objs p) \<longrightarrow>
           futures (run_tasks a e n sched p) ! i = Some (Inr (objs p ! i, None, True)))"
  using assms
proof (induction sched arbitrary: p)
  case Nil
  then show ?case by simp
next
  case (Cons i sched)
  show ?case
  proof (cases "i < length (objs p)")
    case False
    then have "run_task a e n i p = p"
      by (simp add: run_task_def)
    with Cons.IH [OF Cons.prems] False show ?thesis by simp
  next
    case True
    let ?p1 = "run_task a e n i p"
    have p1: "?p1 = p\<lparr>pool_world := (pool_world p)\<lparr>now := now (pool_world p) + lat_fs e\<rparr>,
             futures := (futures p)[i := Some (Inr (objs p ! i, None, True))]\<rparr>"
      using Cons.prems(1) True by (rule run_task_present)
    have pre: "\<forall>t\<in>set (objs ?p1). isfile (files (pool_world ?p1)) (tile_path a t)"
      "length (futures ?p1) = length (objs ?p1)"
      using Cons.prems by (simp_all add: p1)
    note ih = Cons.IH [OF pre]
    have self: "futures (run_tasks a e n sched ?p1) ! i = Some (Inr (objs p ! i, None, True))"
    proof (cases "i \<in> set sched")
      case True
      with ih \<open>i < length (objs p)\<close> show ?thesis by (simp add: p1)
    next
      case False
      then have "futures (run_tasks a e n sched ?p1) ! i = futures ?p1 ! i"
        by (simp add: run_tasks_other)
      with True Cons.prems(2) show ?thesis by (simp add: p1)
    qed
    from ih self show ?thesis by (simp add: p1)
  qed
qed

lemma all_present_futures:
  assumes "\<forall>t\<in>set tiles. isfile (files w0) (tile_path a t)"
    and "set sched = {..<length tiles}"
  shows "futures (run_tasks a e n sched (new_pool w0 tiles)) = map (\<lambda>oc. Some (Inr oc)) (map (\<lambda>t. (t, None, True)) tiles)"
proof (rule nth_equalityI)
  show "length (futures (run_tasks a e n sched (new_pool w0 tiles))) = length (map (\<lambda>oc. Some (Inr oc)) (map (\<lambda>t. (t, None, True)) tiles))"
    by (simp add: run_tasks_frame new_pool_def)
next
  fix i assume "i < length (futures (run_tasks a e n sched (new_pool w0 tiles)))"
  then have i: "i < length tiles" by (simp add: run_tasks_frame new_pool_def)
  with assms(2) have "i \<in> set sched" by simp
  moreover have "\<forall>t\<in>set (objs (new_pool w0 tiles)). isfile (files (pool_world (new_pool w0 tiles))) (tile_path a t)"
    "length (futures (new_pool w0 tiles)) = length (objs (new_pool w0 tiles))"
    using assms(1) by (simp_all add: new_pool_def)
  note run_tasks_present [OF this, of e n sched]
  ultimately show "futures (run_tasks a e n sched (new_pool w0 tiles)) ! i = map (\<lambda>oc. Some (Inr oc)) (map (\<lambda>t. (t, None, True)) tiles) ! i"
    using i by (simp add: new_pool_def)
qed


lemma startup_present:
  assumes "t \<in> set tiles" "isfile (files w) (tile_path a t)"
  shows "startup a w = Inr (w\<lparr>log_lines := log_lines w @ [Begin (url a)], progress := 0\<rparr>)"
proof -
  from assms(2) have "makedirs (files w) (out a) = Inr (files w)"
    unfolding tile_path_def tile_dir_def by (simp add: makedirs_isfile)
  then show ?thesis by (simp add: startup_def)
qed

lemma report_all_present:
  "foldl report (w, k, seen) (map (\<lambda>t. (t, None, True)) tiles) =
     (w, k + length tiles, seen @ map (\<lambda>t. (t, None, True)) tiles)"
  by (induction tiles arbitrary: k seen) (simp_all add: report_def truthy_def)

lemma main_all_present:
  assumes ne: "tiles \<noteq> []"
    and present: "\<forall>t\<in>set tiles. isfile (files w) (tile_path a t)"
    and rate: "0 < rate a"
    and sched: "set sched = {..<length tiles}"
  shows "\<exists>r. main a e sched tiles w = Some (Inr r)
          \<and> consumed r = map (\<lambda>t. (t, None, True)) tiles
          \<and> already r = length tiles
          \<and> requests (final_world r) = requests w
          \<and> sleeps (final_world r) = sleeps w"
proof -
  define w0 where "w0 = w\<lparr>log_lines := log_lines w @ [Begin (url a)], progress := 0\<rparr>"
  define ocs where "ocs = map (\<lambda>t. (t, None :: string option, True)) tiles"
  define p where "p = run_tasks a e (rate a) sched (new_pool w0 tiles)"
  from ne obtain t where "t \<in> set tiles" by (cases tiles) auto
  with present have st: "startup a w = Inr w0"
    unfolding w0_def by (auto intro: startup_present)
  have present0: "\<forall>t\<in>set tiles. isfile (files w0) (tile_path a t)"
    using present by (simp add: w0_def)
  have fut: "futures p = map (\<lambda>oc. Some (Inr oc)) ocs"
    unfolding p_def ocs_def using present0 sched by (rule all_present_futures)
  have "\<forall>t\<in>set (objs (new_pool w0 tiles)). isfile (files (pool_world (new_pool w0 tiles))) (tile_path a t)"
    and "length (futures (new_pool w0 tiles)) = length (objs (new_pool w0 tiles))"
    using present0 by (simp_all add: new_pool_def)
  from run_tasks_present [OF this, of e "rate a" sched]
  have frame: "objs p = tiles" "requests (pool_world p) = requests w" "sleeps (pool_world p) = sleeps w"
    by (simp_all add: p_def new_pool_def w0_def)
  have cons: "consume (futures p) (pool_world p, 0, []) = Some (Inr (pool_world p, length tiles, ocs))"
    unfolding fut consume_map ocs_def report_all_present by simp
  show ?thesis
    using rate ne by (simp add: main_def st Let_def cons frame flip: p_def) (simp add: ocs_def)
qed

text \<open>
  C2. A tile whose file \<open>out/z/x/y.ext\<close> exists when its task runs is not requested and
  the task does not sleep; the outcome is \<open>(tile, None, True)\<close>. So a run over a directory
  that holds every tile of the list reports every tile as present and makes no request,
  whatever the schedule of the pool.
\<close>

theorem present_tile_is_skipped:
  "(isfile (files w) (tile_path a t) \<longrightarrow>
       snd (worker a e n w t) = Inr (t, None, True)
       \<and> requests (fst (worker a e n w t)) = requests w
       \<and> sleeps (fst (worker a e n w t)) = sleeps w)
   \<and> (tiles \<noteq> [] \<and> (\<forall>t\<in>set tiles. isfile (files w) (tile_path a t)) \<and> 0 < rate a
        \<and> set sched = {..<length tiles} \<longrightarrow>
       (\<exists>r. main a e sched tiles w = Some (Inr r)
          \<and> consumed r = map (\<lambda>t. (t, None, True)) tiles
          \<and> already r = length tiles
          \<and> requests (final_world r) = requests w
          \<and> sleeps (final_world r) = sleeps w))"
  using main_all_present [of tiles w a sched e] by (simp add: worker_present)

theorem present_tile_is_skipped_witness:
  "isfile (files (ex_world fs_done)) (tile_path (ex_args ''XYZ'') ex_tile)
   \<and> snd (worker (ex_args ''XYZ'') (ex_env None True Saved) 1 (ex_world fs_done) ex_tile)
       = Inr (ex_tile, None, True)
   \<and> requests (fst (worker (ex_args ''XYZ'') (ex_env None True Saved) 1 (ex_world fs_done) ex_tile)) = []
   \<and> [ex_tile] \<noteq> []
   \<and> 0 < rate (ex_args ''XYZ'')
   \<and> set [0] = {..<length [ex_tile]}
   \<and> (\<exists>r. main (ex_args ''XYZ'') (ex_env None True Saved) [0] [ex_tile] (ex_world fs_done) = Some (Inr r)
          \<and> consumed r = [(ex_tile, None, True)]
          \<and> already r = 1
          \<and> requests (final_world r) = [])"
proof -
  have f: "isfile (files (ex_world fs_done)) (tile_path (ex_args ''XYZ'') ex_tile)"
    by (simp add: ex_world_def ex_path ex_isfile)
  have r: "0 < rate (ex_args ''XYZ'')"
    by (simp add: ex_args_def)
  have s: "set [0] = {..<length [ex_tile]}"
    by auto
  from f r s
    present_tile_is_skipped [of "ex_world fs_done" "ex_args ''XYZ''" ex_tile
      "ex_env None True Saved" 1 "[ex_tile]" "[0]"]
  show ?thesis
    by (simp add: ex_world_def) blast
qed


subsection \<open>The progress bar\<close>

lemma pace_progress:
  "progress (fst (pace_and_report a n tick w t u)) =
     progress w + (if is_fetched (snd (pace_and_report a n tick w t u)) then 1 else 0)"
  by (simp add: pace_and_report_def Let_def is_fetched_def)

lemma fetch_progress:
  "progress (fst (fetch_and_store a e n tick p w t u)) =
     progress w + (if is_fetched (snd (fetch_and_store a e n tick p w t u)) then 1 else 0)"
  by (simp add: fetch_and_store_def Let_def pace_progress split: option.splits prod.splits)
     (simp add: is_fetched_def)

lemma worker_progress:
  "progress (fst (worker a e n w t)) =
     progress w + (if is_fetched (snd (worker a e n w t)) then 1 else 0)"
  by (simp add: worker_def Let_def fetch_progress split: option.splits prod.splits sum.splits)
     (simp add: is_fetched_def)

lemma filter_update_count:
  "i < length xs \<Longrightarrow> \<not> P (xs ! i) \<Longrightarrow>
     length (filter P (xs[i := v])) = length (filter P xs) + (if P v then 1 else 0)"
proof (induction xs arbitrary: i)
  case Nil
  then show ?case by simp
next
  case (Cons x xs)
  then show ?case by (cases i) auto
qed

lemma run_task_progress:
  assumes "i < length (objs p)" "length (futures p) = length (objs p)" "futures p ! i = None"
  shows "progress (pool_world (run_task a e n i p)) + length (filter done_fetched (futures p)) =
         progress (pool_world p) + length (filter done_fetched (futures (run_task a e n i p)))"
proof -
  obtain w' r where wr: "worker a e n (pool_world p) (objs p ! i) = (w', r)"
    by (cases "worker a e n (pool_world p) (objs p ! i)")
  have "progress w' = progress (pool_world p) + (if is_fetched r then 1 else 0)"
    using worker_progress [of a e n "pool_world p" "objs p ! i"] by (simp add: wr)
  moreover have "length (filter done_fetched ((futures p)[i := Some r])) =
      length (filter done_fetched (futures p)) + (if done_fetched (Some r) then 1 else 0)"
    using assms by (intro filter_update_count) (simp_all add: done_fetched_def)
  ultimately show ?thesis
    using assms(1) by (simp add: run_task_def wr done_fetched_def)
qed

lemma run_tasks_progress:
  assumes "distinct sched" "length (futures p) = length (objs p)"
    and "\<forall>i\<in>set sched. i < length (objs p) \<longrightarrow> futures p ! i = None"
  shows "progress (pool_world (run_tasks a e n sched p)) + length (filter done_fetched (futures p)) =
         progress (pool_world p) + length (filter done_fetched (futures (run_tasks a e n sched p)))"
  using assms
proof (induction sched arbitrary: p)
  case Nil
  then show ?case by simp
next
  case (Cons i sched)
  let ?p1 = "run_task a e n i p"
  have len: "length (futures ?p1) = length (objs ?p1)" "length (objs ?p1) = length (objs p)"
    using Cons.prems(2) by (simp_all add: run_task_frame)
  have rest: "\<forall>j\<in>set sched. j < length (objs ?p1) \<longrightarrow> futures ?p1 ! j = None"
  proof (intro ballI impI)
    fix j assume j: "j \<in> set sched" "j < length (objs ?p1)"
    with Cons.prems(1) have "j \<noteq> i" by auto
    then have "futures ?p1 ! j = futures p ! j" by (simp add: run_task_other)
    with j Cons.prems(3) len show "futures ?p1 ! j = None" by simp
  qed
  from Cons.prems(1) have "distinct sched" by simp
  note ih = Cons.IH [OF this len(1) rest]
  have step: "progress (pool_world ?p1) + length (filter done_fetched (futures p)) =
         progress (pool_world p) + length (filter done_fetched (futures ?p1))"
  proof (cases "i < length (objs p)")
    case True
    with Cons.prems show ?thesis by (intro run_task_progress) simp_all
  next
    case False
    then show ?thesis by (simp add: run_task_def)
  qed
  from ih step show ?case by simp
qed

lemma fetched_futures:
  "length (filter done_fetched (map (\<lambda>oc. Some (Inr oc)) ocs)) =
     length (filter (\<lambda>oc. is_fetched (Inr oc)) ocs)"
  by (simp add: filter_map o_def done_fetched_def)

lemma main_progress:
  assumes "distinct sched" "main a e sched tiles w = Some (Inr r)"
  shows "progress (final_world r) = length (filter (\<lambda>oc. is_fetched (Inr oc)) (consumed r))"
proof -
  from assms(2) obtain w0 where st: "startup a w = Inr w0"
    by (auto simp: main_def Let_def split: sum.splits)
  define p where "p = run_tasks a e (rate a) sched (new_pool w0 tiles)"
  from assms(2) st obtain st' where cons: "consume (futures p) (pool_world p, 0, []) = Some (Inr st')"
    by (auto simp: main_def Let_def p_def split: if_splits option.splits sum.splits)
  then obtain ocs where fut: "futures p = map (\<lambda>oc. Some (Inr oc)) ocs"
      and st': "st' = foldl report (pool_world p, 0, []) ocs"
    by (auto dest: consume_Inr)
  have r: "consumed r = ocs" "progress (final_world r) = progress (pool_world p)"
    using assms(2) st cons
    by (auto simp: main_def Let_def st' foldl_report simp flip: p_def split: if_splits)
  have "progress w0 = 0"
    using st by (auto simp: startup_def split: sum.splits)
  moreover have "progress (pool_world p) + length (filter done_fetched (futures (new_pool w0 tiles))) =
      progress (pool_world (new_pool w0 tiles)) + length (filter done_fetched (futures p))"
    unfolding p_def using assms(1)
    by (intro run_tasks_progress) (simp_all add: new_pool_def)
  moreover have "length (filter done_fetched (futures (new_pool w0 tiles))) = 0"
    by (simp add: new_pool_def done_fetched_def)
  ultimately have "progress (pool_world p) = length (filter done_fetched (futures p))"
    by (simp add: new_pool_def)
  also have "\<dots> = length (filter (\<lambda>oc. is_fetched (Inr oc)) ocs)"
    unfolding fut by (rule fetched_futures)
  finally show ?thesis
    by (simp add: r)
qed

text \<open>
  C6, as the code has it. \<open>progress.update()\<close> stands on the path of a saved image only:
  a task advances the bar by one exactly when its outcome has a URL and \<open>ok\<close>, and not
  at all for a tile found on disk, for a failed request or for a failed image. At the end
  of a run whose tasks ran once each, the bar counts the fetched tiles.
\<close>

theorem progress_counts_fetched:
  "progress (fst (worker a e n w t)) =
     progress w + (if is_fetched (snd (worker a e n w t)) then 1 else 0)
   \<and> (distinct sched \<and> main a e sched tiles w = Some (Inr r) \<longrightarrow>
        progress (final_world r) = length (filter (\<lambda>oc. is_fetched (Inr oc)) (consumed r)))"
  using main_progress [of sched a e tiles w r] by (simp add: worker_progress)


theorem progress_counts_fetched_witness:
  "distinct [0::nat]
   \<and> main (ex_args ''XYZ'') (ex_env (Some ''img'') True Saved) [0] [ex_tile] (ex_world Map.empty) =
       Some (Inr \<lparr>final_world =
                  \<lparr>files = fs_dirs([''out'', ''1'', ''0'', ''0.webp''] \<mapsto> File True), now = 1,
                    requests = [(''http://s/1/0/0'', 1 / 2)], sleeps = [1 / 4], progress = 1,
                    log_lines = [Begin ex_url], previews = []\<rparr>,
                already = 0, final_tiles = [ex_tile],
                consumed = [(ex_tile, Some ''http://s/1/0/0'', True)]\<rparr>)
   \<and> length (filter (\<lambda>oc. is_fetched (Inr oc)) [(ex_tile, Some ''http://s/1/0/0'', True)]) = 1"
  using progress_counts_fetched [where a = "ex_args ''XYZ''"
      and e = "ex_env (Some ''img'') True Saved" and n = 1 and w = "ex_world Map.empty"
      and t = ex_tile and sched = "[0]" and tiles = "[ex_tile]"]
  by (simp add: ex_main_fetched is_fetched_def)

text \<open>
  C6 as stated fails: a tile whose request fails has had its network attempt, and the bar
  stands where it stood.
\<close>

theorem failed_request_leaves_progress:
  "snd (worker (ex_args ''XYZ'') (ex_env None True Saved) 1 (ex_world Map.empty) ex_tile) =
     Inr (ex_tile, Some ''http://s/1/0/0'', False)
   \<and> requests (fst (worker (ex_args ''XYZ'') (ex_env None True Saved) 1 (ex_world Map.empty) ex_tile)) =
     [(''http://s/1/0/0'', 1 / 2)]
   \<and> progress (fst (worker (ex_args ''XYZ'') (ex_env None True Saved) 1 (ex_world Map.empty) ex_tile)) =
     progress (ex_world Map.empty)"
  by (simp add: ex_worker_failed) (simp add: ex_world_def)

subsection \<open>Pacing\<close>

lemma pace_sleeps:
  assumes "snd (pace_and_report a n tick w t u) = Inr oc" "n = rate a"
  shows "sleeps (fst (pace_and_report a n tick w t u)) =
           sleeps w @ (if now w - tick < 1 then [1 - (now w - tick)] else [])
         \<and> requests (fst (pace_and_report a n tick w t u)) = requests w
         \<and> real_of_int n / real_of_int (rate a) = 1"
  using assms by (auto simp: pace_and_report_def Let_def split: if_splits)

lemma worker_fetched_cases:
  assumes "snd (worker a e n w t) = Inr (t', Some u, True)"
  obtains fs1 res fs2 where
    "makedirs (files w) (tile_dir a t) = Inr fs1"
    "\<not> isfile fs1 (tile_path a t)"
    "resolve_url a e t = Inr (t', Some u)"
    "fetch_image e u (timeout a) = Some res"
    "open_and_save e fs1 (tile_path a t) res = (fs2, True)"
    "worker a e n w t =
       pace_and_report a n (now w)
         (w\<lparr>files := fs2, now := now w + lat_fs e + lat_fetch e u + lat_image e,
            requests := requests w @ [(u, now w + lat_fs e)]\<rparr>) t' u"
  using assms
  by (auto simp: worker_def fetch_and_store_def Let_def pace_and_report_def
           split: sum.splits if_splits option.splits prod.splits)

text \<open>
  C5, as the code has it. For a tile that is fetched and saved, with \<open>num_workers\<close> the
  configured rate: the interval \<open>num_workers / args.rate\<close> is 1; the start timestamp
  \<open>tick\<close> is the time at which the task is entered (line 53), which is before the
  directory is made, the file is looked for and the URL is resolved, so the request is
  issued \<open>lat_fs\<close> later; \<open>elapsed\<close> is the end timestamp minus \<open>tick\<close>; and the task
  sleeps \<open>interval - elapsed\<close> exactly when \<open>elapsed < interval\<close>.
\<close>

theorem pacing_from_task_entry:
  assumes "snd (worker a e n w t) = Inr (t', Some u, True)" and "n = rate a"
  shows "let tick = now w;
             issued = tick + lat_fs e;
             tock = issued + lat_fetch e u + lat_image e;
             elapsed = tock - tick;
             interval = real_of_int n / real_of_int (rate a)
         in interval = 1
            \<and> requests (fst (worker a e n w t)) = requests w @ [(u, issued)]
            \<and> sleeps (fst (worker a e n w t)) =
                sleeps w @ (if elapsed < interval then [interval - elapsed] else [])"
proof -
  from assms(1) obtain fs2 where
    w: "worker a e n w t =
       pace_and_report a n (now w)
         (w\<lparr>files := fs2, now := now w + lat_fs e + lat_fetch e u + lat_image e,
            requests := requests w @ [(u, now w + lat_fs e)]\<rparr>) t' u"
    by (rule worker_fetched_cases)
  with assms(1) have "snd (pace_and_report a n (now w)
         (w\<lparr>files := fs2, now := now w + lat_fs e + lat_fetch e u + lat_image e,
            requests := requests w @ [(u, now w + lat_fs e)]\<rparr>) t' u) = Inr (t', Some u, True)"
    by simp
  from pace_sleeps [OF this assms(2)] show ?thesis
    by (simp add: w Let_def)
qed

theorem pacing_from_task_entry_witness:
  "snd (worker (ex_args ''XYZ'') (ex_env (Some ''img'') True Saved) 1 (ex_world Map.empty) ex_tile) =
     Inr (ex_tile, Some ''http://s/1/0/0'', True)
   \<and> (1::int) = rate (ex_args ''XYZ'')
   \<and> requests (fst (worker (ex_args ''XYZ'') (ex_env (Some ''img'') True Saved) 1 (ex_world Map.empty) ex_tile)) =
       requests (ex_world Map.empty) @ [(''http://s/1/0/0'', 0 + 1 / 2)]
   \<and> sleeps (fst (worker (ex_args ''XYZ'') (ex_env (Some ''img'') True Saved) 1 (ex_world Map.empty) ex_tile)) =
       sleeps (ex_world Map.empty) @ [1 - (0 + 1 / 2 + 1 / 4 + 0 - 0)]"
proof -
  have h1: "snd (worker (ex_args ''XYZ'') (ex_env (Some ''img'') True Saved) 1 (ex_world Map.empty) ex_tile) =
     Inr (ex_tile, Some ''http://s/1/0/0'', True)"
    by (simp add: ex_worker_fetched)
  have h2: "(1::int) = rate (ex_args ''XYZ'')"
    by (simp add: ex_args_sel)
  from pacing_from_task_entry [OF h1 h2] h1 h2 show ?thesis
    by (simp add: Let_def ex_world_def ex_env_def ex_args_sel)
qed

text \<open>
  C5 as stated fails. In this run the task is entered at time 0, the request is issued at
  1/2 and the image is saved at 3/4. With the start timestamp taken when the request is
  issued, the task would sleep 1 - (3/4 - 1/2); it sleeps 1/4, and returns at time 1.
\<close>

theorem start_timestamp_is_not_the_request:
  "requests (fst (worker (ex_args ''XYZ'') (ex_env (Some ''img'') True Saved) 1 (ex_world Map.empty) ex_tile)) =
     [(''http://s/1/0/0'', 1 / 2)]
   \<and> now (fst (worker (ex_args ''XYZ'') (ex_env (Some ''img'') True Saved) 1 (ex_world Map.empty) ex_tile)) = 3 / 4 + 1 / 4
   \<and> sleeps (fst (worker (ex_args ''XYZ'') (ex_env (Some ''img'') True Saved) 1 (ex_world Map.empty) ex_tile)) = [1 / 4]
   \<and> sleeps (fst (worker (ex_args ''XYZ'') (ex_env (Some ''img'') True Saved) 1 (ex_world Map.empty) ex_tile)) \<noteq> [1 - (3 / 4 - 1 / 2)]"
  by (simp add: ex_worker_fetched)

subsection \<open>Payloads that do not become images\<close>







subsection \<open>An unknown service type\<close>





subsection \<open>The encoding of outcomes\<close>








subsection \<open>The summary line\<close>

text \<open>
  C9, as the code has it. When \<open>main\<close> returns, the log has gained the first line, one
  warning for each failed outcome in the order of the tiles, and then the summary line
  with the number of tiles found on disk if and only if that number is not zero.
\<close>

theorem summary_iff_some_present:
  assumes "main a e sched tiles w = Some (Inr r)"
  shows "already r = length (filter is_present (consumed r))
     \<and> log_lines (final_world r) =
         log_lines w @ [Begin (url a)] @ warnings (consumed r)
           @ (if already r \<noteq> 0 then [Notice (already r)] else [])"
  using assms
proof (cases rule: main_Inr_cases)
  case (1 w0 p)
  have "log_lines (pool_world p) = log_lines w @ [Begin (url a)]"
    using 1(1) by (simp add: 1(3) run_tasks_frame new_pool_def startup_log)
  with 1 show ?thesis
    by (simp add: Let_def)
qed

theorem summary_iff_some_present_witness:
  "\<exists>r. main (ex_args ''XYZ'') (ex_env None True Saved) [0] [ex_tile] (ex_world fs_done) = Some (Inr r)
      \<and> already r = length (filter is_present (consumed r))
      \<and> already r = 1
      \<and> log_lines (final_world r) =
          log_lines (ex_world fs_done) @ [Begin (url (ex_args ''XYZ''))] @ warnings (consumed r)
            @ (if already r \<noteq> 0 then [Notice (already r)] else [])
      \<and> log_lines (final_world r) = [Begin ex_url, Notice 1]"
proof -
  from ex_main_present obtain r where
    r: "main (ex_args ''XYZ'') (ex_env None True Saved) [0] [ex_tile] (ex_world fs_done) = Some (Inr r)"
      "already r = 1" "log_lines (final_world r) = [Begin ex_url, Notice 1]"
    by simp
  from summary_iff_some_present [OF r(1)] r show ?thesis
    by blast
qed

text \<open>
  C9 as stated fails for a run in which no tile is found on disk: the count is zero and
  the log ends with the warning, without a summary line.
\<close>

theorem no_summary_line_for_zero:
  "case main (ex_args ''XYZ'') (ex_env None True Saved) [0] [ex_tile] (ex_world Map.empty) of
     Some (Inr r) \<Rightarrow>
       already r = 0
       \<and> log_lines (final_world r) = [Begin ex_url, Warning ex_tile (Some ''http://s/1/0/0'')]
   | _ \<Rightarrow> False"
  by (simp add: ex_main_failed)

subsection \<open>The order of the outcomes\<close>

lemma run_tasks_future:
  assumes "distinct sched" "i \<in> set sched" "i < length (objs p)" "length (futures p) = length (objs p)"
  shows "futures (run_tasks a e n sched p) ! i = Some (task_result a e n sched p i)"
proof -
  from assms(2) obtain pre post where sched: "sched = pre @ i # post" and pre: "i \<notin> set pre"
    by (auto dest: split_list_first)
  from assms(1) sched have post: "i \<notin> set post" by simp
  have "\<And>j. j \<in> set pre \<Longrightarrow> j \<noteq> i"
    using pre by auto
  then have tw: "takeWhile (\<lambda>j. j \<noteq> i) sched = pre"
    by (simp add: sched)
  let ?p1 = "run_tasks a e n pre p"
  have len: "i < length (objs ?p1)" "length (futures ?p1) = length (objs ?p1)"
    using assms(3,4) by (simp_all add: run_tasks_frame)
  have obj: "objs ?p1 ! i = objs p ! i"
    using pre by (simp add: run_tasks_other)
  have "futures (run_tasks a e n sched p) ! i = futures (run_task a e n i ?p1) ! i"
    using post by (simp add: sched run_tasks_append run_tasks_other)
  also have "\<dots> = Some (snd (worker a e n (pool_world ?p1) (objs ?p1 ! i)))"
    using len by (rule run_task_self)
  finally show ?thesis
    by (simp add: task_result_def tw obj)
qed

lemma consumed_by_position:
  assumes "distinct sched" and "set sched = {..<length tiles}"
    and "startup a w = Inr w0"
    and "main a e sched tiles w = Some (Inr r)"
  shows "map Inr (consumed r) =
           map (task_result a e (rate a) sched (new_pool w0 tiles)) [0..<length tiles]"
  using assms(4)
proof (cases rule: main_Inr_cases)
  case (1 w0' p)
  with assms(3) have p: "p = run_tasks a e (rate a) sched (new_pool w0 tiles)"
    by simp
  have len: "length (consumed r) = length tiles"
    using arg_cong [OF 1(4), of length] by (simp add: p run_tasks_frame new_pool_def)
  show ?thesis
  proof (rule nth_equalityI)
    show "length (map Inr (consumed r)) =
        length (map (task_result a e (rate a) sched (new_pool w0 tiles)) [0..<length tiles])"
      by (simp add: len)
  next
    fix i assume "i < length (map Inr (consumed r))"
    then have i: "i < length tiles" by (simp add: len)
    with assms(2) have "i \<in> set sched" by simp
    with assms(1) have "futures p ! i = Some (task_result a e (rate a) sched (new_pool w0 tiles) i)"
      unfolding p using i by (intro run_tasks_future) (simp_all add: new_pool_def)
    moreover have "futures p ! i = Some (Inr (consumed r ! i))"
      using i len by (simp add: 1(4))
    ultimately show "map Inr (consumed r) ! i =
        map (task_result a e (rate a) sched (new_pool w0 tiles)) [0..<length tiles] ! i"
      using i len by simp
  qed
qed

text \<open>
  C8. Whatever the order in which the pool runs the tasks (a schedule that runs the task
  of every position once), \<open>main\<close> does not wait for ever, and when it returns, the loop
  has received one outcome for each tile, and the outcome at each position is the result
  of the task of the tile at that position.
\<close>

theorem outcomes_in_submission_order:
  assumes "distinct sched" and "set sched = {..<length tiles}"
    and "startup a w = Inr w0"
  shows "main a e sched tiles w \<noteq> None
     \<and> (\<forall>r. main a e sched tiles w = Some (Inr r) \<longrightarrow>
          map Inr (consumed r) =
            map (task_result a e (rate a) sched (new_pool w0 tiles)) [0..<length tiles])"
  using assms by (simp add: main_returns consumed_by_position)

theorem outcomes_in_submission_order_witness:
  "distinct [1, 0 :: nat]
   \<and> set [1, 0] = {..<length [ex_tile, ex_tile2]}
   \<and> startup (ex_args ''XYZ'') (ex_world Map.empty) = Inr ex_started
   \<and> (\<exists>r. main (ex_args ''XYZ'') (ex_env None True Saved) [1, 0] [ex_tile, ex_tile2] (ex_world Map.empty)
            = Some (Inr r)
          \<and> requests (final_world r) = [(''http://s/1/1/0'', 1 / 2), (''http://s/1/0/0'', 5 / 4)]
          \<and> consumed r = [(ex_tile, Some ''http://s/1/0/0'', False), (ex_tile2, Some ''http://s/1/1/0'', False)]
          \<and> map Inr (consumed r) =
              map (task_result (ex_args ''XYZ'') (ex_env None True Saved) (rate (ex_args ''XYZ'')) [1, 0]
                     (new_pool ex_started [ex_tile, ex_tile2])) [0..<length [ex_tile, ex_tile2]])"
proof -
  have h1: "distinct [1, 0 :: nat]" by simp
  have h2: "set [1, 0] = {..<length [ex_tile, ex_tile2]}" by auto
  note h3 = ex_startup [of "''XYZ''"]
  from ex_main_two obtain r where
    r: "main (ex_args ''XYZ'') (ex_env None True Saved) [1, 0] [ex_tile, ex_tile2] (ex_world Map.empty)
        = Some (Inr r)"
      "consumed r = [(ex_tile, Some ''http://s/1/0/0'', False), (ex_tile2, Some ''http://s/1/1/0'', False)]"
      "requests (final_world r) = [(''http://s/1/1/0'', 1 / 2), (''http://s/1/0/0'', 5 / 4)]"
    by blast
  from outcomes_in_submission_order [OF h1 h2 h3, of "ex_env None True Saved"] r(1)
  have "map Inr (consumed r) =
      map (task_result (ex_args ''XYZ'') (ex_env None True Saved) (rate (ex_args ''XYZ'')) [1, 0]
             (new_pool ex_started [ex_tile, ex_tile2])) [0..<length [ex_tile, ex_tile2]]"
    by blast
  with r h1 h2 h3 show ?thesis
    by blast
qed

subsection \<open>Exceptions\<close>











subsection \<open>The TMS flip\<close>



end
